theory Spec2Isabelle
  imports Complex_Main "HOL-Library.Word"
begin

unbundle bit_operations_syntax

section \<open>The SSF wire protocol (protocol/wire.go)\<close>

text \<open>
  A frame on the stream is one version byte, a 32-bit big-endian length and that many
  octets of protobuf-encoded span. This theory embeds \<^verbatim>\<open>readFrame\<close>, \<^verbatim>\<open>ReadSSF\<close>,
  \<^verbatim>\<open>ParseSSF\<close>, \<^verbatim>\<open>WriteSSF\<close>, \<^verbatim>\<open>ValidTrace\<close> and \<^verbatim>\<open>TraceSpan\<close>.
  The stream (\<^verbatim>\<open>io.Reader\<close>, \<^verbatim>\<open>io.Writer\<close>) and the protobuf codec are interfaces
  of the Go code and parameters of the model.
\<close>

type_synonym byte = "8 word"

subsection \<open>Spans, samples and messages\<close>

text \<open>
  Modelled from the spec: the declarations of \<^verbatim>\<open>ssf.SSFSample\<close> and \<^verbatim>\<open>ssf.SSFSpan\<close>
  (package ssf is not among the sources). A sample carries a sample rate next to name,
  value and tags that the wire code never inspects. The rate is a \<^verbatim>\<open>float32\<close>; the code
  only compares it with zero and stores the constant one, so it is kept as a real number.
  \<^verbatim>\<open>Metrics\<close> is a slice of pointers: the list holds the samples pointed to, and the
  protobuf decoder never leaves a nil element in it.
\<close>

record SSFSample =
  Sample_Name :: string
  Sample_Value :: real
  SampleRate :: real
  Sample_Tags :: "(string \<rightharpoonup> string) option"

text \<open>
  A Go map may be nil; \<open>None\<close> is the nil map and \<open>Some m\<close> an allocated one.
  The field \<^verbatim>\<open>Id\<close> is called \<open>Id_span\<close> here.
\<close>

record SSFSpan =
  Id_span :: "64 word"
  TraceId :: "64 word"
  StartTimestamp :: "64 word"
  EndTimestamp :: "64 word"
  Name :: string
  Tags :: "(string \<rightharpoonup> string) option"
  Metrics :: "SSFSample list"

text \<open>
  A \<^verbatim>\<open>Message\<close> points to its span. \<^verbatim>\<open>ParseSSF\<close>, the only function that builds
  one, never stores nil, and a message of the model always has a span.
\<close>

datatype Message = Message (span: SSFSpan)

subsection \<open>Errors\<close>

text \<open>Errors a stream can report: \<^verbatim>\<open>io.EOF\<close>, \<^verbatim>\<open>io.ErrUnexpectedEOF\<close>, or any other.\<close>

datatype ioerr = EOF | ErrUnexpectedEOF | IOFailure string

type_synonym proto_error = string

text \<open>
  The values of Go's \<^verbatim>\<open>error\<close> that the wire code returns: a stream error handed on
  as it is, the three framing errors, an error of the protobuf codec handed on as it is,
  and \<^verbatim>\<open>InvalidTrace\<close> with the span it refused.
\<close>

datatype error =
    PlainIO ioerr
  | ErrFramingIO ioerr
  | ErrFrameVersion byte
  | ErrFrameLength "32 word"
  | ProtoError proto_error
  | InvalidTrace SSFSpan

text \<open>
  Modelled from the spec: \<^verbatim>\<open>IsFramingError\<close> (declared in a file that is not among
  the sources). The errors fatal to the stream are the framing I/O error, the frame
  version error and the frame length error.
\<close>

fun IsFramingError :: "error \<Rightarrow> bool" where
  "IsFramingError (ErrFramingIO e) = True"
| "IsFramingError (ErrFrameVersion v) = True"
| "IsFramingError (ErrFrameLength l) = True"
| "IsFramingError e = False"

subsection \<open>Constants\<close>

definition MaxSSFPacketLength :: "32 word" where
  "MaxSSFPacketLength = 16 * 1024 * 1024"

definition SSFFrameLength :: "32 word" where
  "SSFFrameLength = 1 + 4"

definition version0 :: byte where
  "version0 = 0"

subsection \<open>Streams\<close>

text \<open>
  An \<^verbatim>\<open>io.Reader\<close> is a state and a function: asked for at most \<open>k\<close> bytes, a read
  gives the bytes it stored, possibly an error, and the next state. A read cannot store
  more than the slice holds, so \<open>Read\<close> keeps at most \<open>k\<close> bytes. An \<^verbatim>\<open>io.Writer\<close>
  is given bytes and answers with a count, possibly an error, and the next state.
\<close>

type_synonym 'r reader = "'r \<Rightarrow> nat \<Rightarrow> (byte list \<times> ioerr option) \<times> 'r"
type_synonym 'w writer = "'w \<Rightarrow> byte list \<Rightarrow> (nat \<times> ioerr option) \<times> 'w"

definition Read :: "'r reader \<Rightarrow> 'r \<Rightarrow> nat \<Rightarrow> (byte list \<times> ioerr option) \<times> 'r" where
  "Read rd s k = (case rd s k of ((chunk, err), s') \<Rightarrow> ((take k chunk, err), s'))"

text \<open>
  \<^verbatim>\<open>readFrame\<close>: the loop keeps the part of \<^verbatim>\<open>bts\<close> filled so far (\<^verbatim>\<open>bts[:read]\<close>),
  so \<^verbatim>\<open>read\<close> is its length. Each round reads into the rest of the buffer. An error
  returns the empty slice and the error; the loop ends when the buffer is full. A reader
  that keeps returning no bytes and no error keeps the loop running: the result is
  \<open>None\<close>.
\<close>

partial_function (option) readFrame_loop ::
  "'r reader \<Rightarrow> 'r \<Rightarrow> byte list \<Rightarrow> nat \<Rightarrow> ((byte list \<times> ioerr option) \<times> 'r) option"
where
  "readFrame_loop rd s bts len =
     (case Read rd s (len - length bts) of
        ((chunk, Some err), s') \<Rightarrow> Some (([], Some err), s')
      | ((chunk, None), s') \<Rightarrow>
          if length (bts @ chunk) = len then Some ((bts @ chunk, None), s')
          else readFrame_loop rd s' (bts @ chunk) len)"

definition readFrame ::
  "'r reader \<Rightarrow> 'r \<Rightarrow> nat \<Rightarrow> ((byte list \<times> ioerr option) \<times> 'r) option"
where
  "readFrame rd s len = readFrame_loop rd s [] len"

text \<open>
  \<^verbatim>\<open>io.ReadFull\<close> of the Go library, which \<^verbatim>\<open>binary.Read\<close> calls: read until the
  buffer is full or a read reports an error. With the buffer full the error is dropped;
  an end of stream after some bytes becomes \<^verbatim>\<open>io.ErrUnexpectedEOF\<close>.
\<close>

partial_function (option) ReadFull_loop ::
  "'r reader \<Rightarrow> 'r \<Rightarrow> byte list \<Rightarrow> nat \<Rightarrow> ((byte list \<times> ioerr option) \<times> 'r) option"
where
  "ReadFull_loop rd s buf mn =
     (if length buf < mn then
        (case Read rd s (mn - length buf) of
           ((chunk, None), s') \<Rightarrow> ReadFull_loop rd s' (buf @ chunk) mn
         | ((chunk, Some err), s') \<Rightarrow> Some ((buf @ chunk, Some err), s'))
      else Some ((buf, None), s))"

definition ReadFull ::
  "'r reader \<Rightarrow> 'r \<Rightarrow> nat \<Rightarrow> ((byte list \<times> ioerr option) \<times> 'r) option"
where
  "ReadFull rd s n =
     (case ReadFull_loop rd s [] n of
        None \<Rightarrow> None
      | Some ((buf, err), s') \<Rightarrow>
          Some ((buf,
                 if length buf \<ge> n then None
                 else if length buf > 0 \<and> err = Some EOF then Some ErrUnexpectedEOF
                 else err), s'))"

text \<open>\<^verbatim>\<open>binary.BigEndian\<close>: four octets, most significant first.\<close>

definition BigEndian_Uint32 :: "byte list \<Rightarrow> 32 word" where
  "BigEndian_Uint32 b =
     ucast (b ! 3) OR push_bit 8 (ucast (b ! 2)) OR push_bit 16 (ucast (b ! 1))
       OR push_bit 24 (ucast (b ! 0))"

definition BigEndian_PutUint32 :: "32 word \<Rightarrow> byte list" where
  "BigEndian_PutUint32 v =
     [ucast (drop_bit 24 v), ucast (drop_bit 16 v), ucast (drop_bit 8 v), ucast v]"

text \<open>
  \<^verbatim>\<open>binary.Read\<close> into a \<^verbatim>\<open>uint8\<close> and into a \<^verbatim>\<open>uint32\<close>: fill a buffer of the
  value's size with \<^verbatim>\<open>io.ReadFull\<close>, return its error, else decode the buffer.
\<close>

definition binary_Read_uint8 :: "'r reader \<Rightarrow> 'r \<Rightarrow> ((ioerr + byte) \<times> 'r) option" where
  "binary_Read_uint8 rd s =
     (case ReadFull rd s 1 of
        None \<Rightarrow> None
      | Some ((bs, Some err), s') \<Rightarrow> Some (Inl err, s')
      | Some ((bs, None), s') \<Rightarrow> Some (Inr (bs ! 0), s'))"

definition binary_Read_uint32 :: "'r reader \<Rightarrow> 'r \<Rightarrow> ((ioerr + 32 word) \<times> 'r) option" where
  "binary_Read_uint32 rd s =
     (case ReadFull rd s 4 of
        None \<Rightarrow> None
      | Some ((bs, Some err), s') \<Rightarrow> Some (Inl err, s')
      | Some ((bs, None), s') \<Rightarrow> Some (Inr (BigEndian_Uint32 bs), s'))"

text \<open>\<^verbatim>\<open>binary.Write\<close>: one write of the encoded value; only the error is kept.\<close>

definition binary_Write :: "'w writer \<Rightarrow> 'w \<Rightarrow> byte list \<Rightarrow> ioerr option \<times> 'w" where
  "binary_Write wr w bs = (case wr w bs of ((n, err), w') \<Rightarrow> (err, w'))"

subsection \<open>The buffer pool\<close>

text \<open>
  \<^verbatim>\<open>pbufPool\<close> holds scratch \<^verbatim>\<open>proto.Buffer\<close>s; a buffer is the bytes it retains.
  \<^verbatim>\<open>Get\<close> takes a pooled buffer, or makes a new empty one (\<^verbatim>\<open>proto.NewBuffer(nil)\<close>)
  when the pool is empty; \<^verbatim>\<open>Put\<close> returns one.
\<close>

type_synonym pool = "byte list list"

definition pool_Get :: "pool \<Rightarrow> byte list \<times> pool" where
  "pool_Get p = (case p of [] \<Rightarrow> ([], []) | b # rest \<Rightarrow> (b, rest))"

definition pool_Put :: "byte list \<Rightarrow> pool \<Rightarrow> pool" where
  "pool_Put b p = b # p"

definition Reset :: "byte list \<Rightarrow> byte list" where
  "Reset b = []"

subsection \<open>Trace validity\<close>

definition ValidTrace :: "SSFSpan \<Rightarrow> bool" where
  "ValidTrace sample =
     (((True \<and> Id_span sample \<noteq> 0) \<and> TraceId sample \<noteq> 0) \<and> StartTimestamp sample \<noteq> 0
        \<and> EndTimestamp sample \<noteq> 0)"

definition TraceSpan :: "Message \<Rightarrow> error + SSFSpan" where
  "TraceSpan m = (if \<not> ValidTrace (span m) then Inl (InvalidTrace (span m)) else Inr (span m))"

definition Metrics_of :: "Message \<Rightarrow> SSFSample list" where
  "Metrics_of m = Metrics (span m)"

subsection \<open>Decoding and normalisation\<close>

text \<open>
  The three steps of ``Normalize the span'' in \<^verbatim>\<open>ParseSSF\<close>. A nil \<^verbatim>\<open>Tags\<close> becomes
  an empty map. With an empty \<^verbatim>\<open>Name\<close>, the loop over \<^verbatim>\<open>Tags\<close> visits every key once
  and assigns only at the key \<^verbatim>\<open>"name"\<close>, so it leaves the value stored there in
  \<^verbatim>\<open>Name\<close> when the key is present; then the key is deleted. A sample rate of zero
  becomes one.
\<close>

definition init_Tags :: "SSFSpan \<Rightarrow> SSFSpan" where
  "init_Tags s = (if Tags s = None then s\<lparr>Tags := Some Map.empty\<rparr> else s)"

definition range_name :: "(string \<rightharpoonup> string) \<Rightarrow> string \<Rightarrow> string" where
  "range_name m nm = (case m ''name'' of Some v \<Rightarrow> v | None \<Rightarrow> nm)"

definition backfill_Name :: "SSFSpan \<Rightarrow> SSFSpan" where
  "backfill_Name s =
     (if Name s = '''' then
        (case Tags s of
           None \<Rightarrow> s
         | Some m \<Rightarrow> s\<lparr>Name := range_name m (Name s), Tags := Some (m(''name'' := None))\<rparr>)
      else s)"

definition normalize_sample :: "SSFSample \<Rightarrow> SSFSample" where
  "normalize_sample sample = (if SampleRate sample = 0 then sample\<lparr>SampleRate := 1\<rparr> else sample)"

definition normalize_span :: "SSFSpan \<Rightarrow> SSFSpan" where
  "normalize_span s0 =
     (let s1 = init_Tags s0;
          s2 = backfill_Name s1
      in s2\<lparr>Metrics := map normalize_sample (Metrics s2)\<rparr>)"

text \<open>
  \<^verbatim>\<open>ParseSSF\<close>: take a scratch buffer, point it at the packet (\<^verbatim>\<open>SetBuf\<close>), decode.
  The deferred function resets the buffer and puts it back on every return. The decoder
  \<open>unmarshal\<close> is the protobuf library's.
\<close>

definition ParseSSF ::
  "(byte list \<Rightarrow> proto_error + SSFSpan) \<Rightarrow> byte list \<Rightarrow> pool \<Rightarrow> (error + Message) \<times> pool"
where
  "ParseSSF unmarshal packet p =
     (case pool_Get p of
        (scratchBuff, p1) \<Rightarrow>
          (let scratchBuff1 = packet;
               p2 = pool_Put (Reset scratchBuff1) p1
           in case unmarshal scratchBuff1 of
                Inl err \<Rightarrow> (Inl (ProtoError err), p2)
              | Inr sp \<Rightarrow> (Inr (Message (normalize_span sp)), p2)))"

subsection \<open>Reading a frame\<close>

definition ReadSSF ::
  "'r reader \<Rightarrow> (byte list \<Rightarrow> proto_error + SSFSpan) \<Rightarrow> 'r \<Rightarrow> pool
     \<Rightarrow> ((error + Message) \<times> 'r \<times> pool) option"
where
  "ReadSSF rd unmarshal s p =
     (case binary_Read_uint8 rd s of
        None \<Rightarrow> None
      | Some (Inl err, s1) \<Rightarrow>
          if err = EOF then Some (Inl (PlainIO err), s1, p)
          else Some (Inl (ErrFramingIO err), s1, p)
      | Some (Inr version, s1) \<Rightarrow>
          if version \<noteq> version0 then Some (Inl (ErrFrameVersion version), s1, p)
          else
            (case binary_Read_uint32 rd s1 of
               None \<Rightarrow> None
             | Some (Inl err, s2) \<Rightarrow> Some (Inl (ErrFramingIO err), s2, p)
             | Some (Inr len, s2) \<Rightarrow>
                 if len > MaxSSFPacketLength then Some (Inl (ErrFrameLength len), s2, p)
                 else
                   (case readFrame rd s2 (unat len) of
                      None \<Rightarrow> None
                    | Some ((bts, Some err), s3) \<Rightarrow> Some (Inl (ErrFramingIO err), s3, p)
                    | Some ((bts, None), s3) \<Rightarrow>
                        (case ParseSSF unmarshal bts p of (r, p') \<Rightarrow> Some (r, s3, p')))))"

subsection \<open>Writing a frame\<close>

text \<open>
  \<^verbatim>\<open>WriteSSF\<close>: take a scratch buffer and marshal the span onto its end. When that
  fails the function returns at once; the deferred reset-and-put is registered only
  after the check, so it runs on the later returns alone. The length written is
  \<^verbatim>\<open>uint32(len(pbuf.Bytes()))\<close>, the length modulo \<open>2 ^ 32\<close>.
\<close>

definition WriteSSF ::
  "'w writer \<Rightarrow> (SSFSpan \<Rightarrow> proto_error + byte list) \<Rightarrow> 'w \<Rightarrow> pool \<Rightarrow> SSFSpan
     \<Rightarrow> (nat \<times> error option) \<times> 'w \<times> pool"
where
  "WriteSSF wr marshal out p ssf =
     (case pool_Get p of
        (pbuf, p1) \<Rightarrow>
          (case marshal ssf of
             Inl err \<Rightarrow> ((0, Some (ProtoError err)), out, p1)
           | Inr enc \<Rightarrow>
               (let pbuf1 = pbuf @ enc;
                    p2 = pool_Put (Reset pbuf1) p1
                in case binary_Write wr out [version0] of
                     (Some err, w1) \<Rightarrow> ((0, Some (ErrFramingIO err)), w1, p2)
                   | (None, w1) \<Rightarrow>
                       (case binary_Write wr w1
                               (BigEndian_PutUint32 (word_of_nat (length pbuf1))) of
                          (Some err, w2) \<Rightarrow> ((0, Some (ErrFramingIO err)), w2, p2)
                        | (None, w2) \<Rightarrow>
                            (case wr w2 pbuf1 of
                               ((n, Some err), w3) \<Rightarrow> ((n, Some (ErrFramingIO err)), w3, p2)
                             | ((n, None), w3) \<Rightarrow> ((n, None), w3, p2))))))"

subsection \<open>Streams and codecs of the examples\<close>

text \<open>
  \<^verbatim>\<open>bytes.Buffer\<close> of the Go library, the stream of the package's tests: a write
  appends and never fails; a read takes up to \<open>k\<close> of the unread bytes, and on an empty
  buffer reports end of stream unless it was asked for no bytes.
\<close>

definition buffer_Write :: "byte list writer" where
  "buffer_Write b p = ((length p, None), b @ p)"

definition buffer_Read :: "byte list reader" where
  "buffer_Read b k =
     (if b = [] then (if k = 0 then (([], None), []) else (([], Some EOF), []))
      else ((take k b, None), drop k b))"

text \<open>
  A scripted reader: the state lists what the coming reads deliver, each entry some
  bytes and possibly an error reported together with the last of them. A read that asks
  for fewer bytes than the entry holds leaves the rest, and the error, for the next read.
  After the script the stream is at its end.
\<close>

definition script_Read :: "(byte list \<times> ioerr option) list reader" where
  "script_Read s k =
     (case s of
        [] \<Rightarrow> (([], Some EOF), [])
      | (chunk, err) # rest \<Rightarrow>
          if length chunk \<le> k then ((chunk, err), rest)
          else ((take k chunk, None), (drop k chunk, err) # rest))"

text \<open>A writer that accepts nothing: every write fails with no byte taken.\<close>

definition closed_Write :: "nat writer" where
  "closed_Write calls p = ((0, Some (IOFailure ''closed'')), Suc calls)"

text \<open>
  A small codec for the examples, in place of the protobuf library: the encoding of a
  span is its name, one octet per character, and a span that carries samples cannot be
  encoded; the decoder refuses octets above 127 and gives a span with that name and
  nothing else.
\<close>

definition name_marshal :: "SSFSpan \<Rightarrow> proto_error + byte list" where
  "name_marshal s =
     (if Metrics s \<noteq> [] then Inl ''cannot encode samples''
      else Inr (map (\<lambda>c. word_of_nat (of_char c)) (Name s)))"

definition name_unmarshal :: "byte list \<Rightarrow> proto_error + SSFSpan" where
  "name_unmarshal bs =
     (if list_ex (\<lambda>b. b > 127) bs then Inl ''invalid UTF-8''
      else Inr \<lparr>Id_span = 0, TraceId = 0, StartTimestamp = 0, EndTimestamp = 0,
                Name = map (\<lambda>b. char_of (unat b)) bs, Tags = None, Metrics = []\<rparr>)"

text \<open>
  What it means for a stream to carry bytes. A reader \<open>delivers\<close> the bytes \<open>pending\<close>
  when, as long as bytes are pending, every read for at least one byte returns without
  error some first part of them, at least one byte, and leaves the rest pending; and a
  read for no bytes returns none, without error, and changes nothing. What a read does
  when nothing is pending is left open. A writer \<open>accepts\<close> when every write takes all
  its bytes without error and adds them to what has been \<open>written\<close>.
\<close>

definition delivers :: "'r reader \<Rightarrow> ('r \<Rightarrow> byte list) \<Rightarrow> bool" where
  "delivers rd pending \<longleftrightarrow>
     (\<forall>s k. pending s \<noteq> [] \<or> k = 0 \<longrightarrow>
        (case rd s k of
           ((chunk, err), s') \<Rightarrow>
             err = None \<and> length chunk \<le> k \<and> chunk = take (length chunk) (pending s)
             \<and> pending s' = drop (length chunk) (pending s) \<and> (0 < k \<longrightarrow> chunk \<noteq> [])))"


text \<open>
  \<^verbatim>\<open>iotest.OneByteReader\<close> of the Go library over a buffer: every read for at least one
  byte returns a single byte.
\<close>

definition onebyte_Read :: "byte list reader" where
  "onebyte_Read b k =
     (if k = 0 then (([], None), b)
      else if b = [] then (([], Some EOF), [])
      else (([hd b], None), tl b))"

text \<open>Spans of the examples.\<close>

definition ex_trace :: SSFSpan where
  "ex_trace = \<lparr>Id_span = 1, TraceId = 1, StartTimestamp = 2, EndTimestamp = 1,
                Name = ''foo'', Tags = None, Metrics = []\<rparr>"

definition ex_sample :: "real \<Rightarrow> SSFSample" where
  "ex_sample r = \<lparr>Sample_Name = ''hits'', Sample_Value = 3, SampleRate = r, Sample_Tags = None\<rparr>"


definition ex_normal :: SSFSpan where
  "ex_normal = \<lparr>Id_span = 5, TraceId = 6, StartTimestamp = 7, EndTimestamp = 8,
                 Name = ''foo'', Tags = Some [''host'' \<mapsto> ''bar''],
                 Metrics = [ex_sample 1, ex_sample (1 / 2)]\<rparr>"

definition ex_named :: SSFSpan where
  "ex_named = \<lparr>Id_span = 0, TraceId = 0, StartTimestamp = 0, EndTimestamp = 0,
                Name = ''hi'', Tags = Some Map.empty, Metrics = []\<rparr>"


section \<open>Properties\<close>

subsection \<open>Reads\<close>

lemma Read_length: "Read rd s k = ((chunk, e), s') \<Longrightarrow> length chunk \<le> k"
  by (auto simp: Read_def split: prod.splits)

text \<open>\<open>ReadFull\<close> never returns more than it was asked for, and no error means a full buffer.\<close>

lemma ReadFull_loop_length_aux:
  assumes "ReadFull_loop rd s buf mn = Some y"
  shows "length buf \<le> mn \<longrightarrow>
           length (fst (fst y)) \<le> mn \<and> (snd (fst y) = None \<longrightarrow> length (fst (fst y)) = mn)"
proof (rule ReadFull_loop.raw_induct
    [where P = "\<lambda>rd s buf mn y. length buf \<le> mn \<longrightarrow>
           length (fst (fst y)) \<le> mn \<and> (snd (fst y) = None \<longrightarrow> length (fst (fst y)) = mn)",
     OF _ assms])
  fix loop :: "'a reader \<Rightarrow> 'a \<Rightarrow> byte list \<Rightarrow> nat \<Rightarrow> ((byte list \<times> ioerr option) \<times> 'a) option"
  fix rd s buf mn y
  assume IH: "\<And>rd s buf mn y. loop rd s buf mn = Some y \<Longrightarrow> length buf \<le> mn \<longrightarrow>
           length (fst (fst y)) \<le> mn \<and> (snd (fst y) = None \<longrightarrow> length (fst (fst y)) = mn)"
  assume step: "(if length buf < mn then
        (case Read rd s (mn - length buf) of
           ((chunk, None), s') \<Rightarrow> loop rd s' (buf @ chunk) mn
         | ((chunk, Some err), s') \<Rightarrow> Some ((buf @ chunk, Some err), s'))
      else Some ((buf, None), s)) = Some y"
  show "length buf \<le> mn \<longrightarrow>
           length (fst (fst y)) \<le> mn \<and> (snd (fst y) = None \<longrightarrow> length (fst (fst y)) = mn)"
  proof (cases "length buf < mn")
    case False
    with step show ?thesis by auto
  next
    case True
    obtain chunk err s1 where r: "Read rd s (mn - length buf) = ((chunk, err), s1)"
      by (metis surj_pair)
    from Read_length [OF r] True have len: "length (buf @ chunk) \<le> mn" by simp
    show ?thesis
    proof (cases err)
      case None
      with step True r have "loop rd s1 (buf @ chunk) mn = Some y" by simp
      from IH [OF this] len show ?thesis by simp
    next
      case (Some x)
      with step True r len show ?thesis by auto
    qed
  qed
qed

lemma ReadFull_length:
  assumes "ReadFull rd s n = Some ((b, e), s')"
  shows "length b \<le> n \<and> (e = None \<longleftrightarrow> length b = n)"
  using assms ReadFull_loop_length_aux [of rd s "[]" n]
  by (auto simp: ReadFull_def split: option.splits prod.splits if_splits)

text \<open>\<open>readFrame\<close> returns either an error with no bytes, or exactly \<open>len\<close> bytes.\<close>

lemma readFrame_loop_result_aux:
  assumes "readFrame_loop rd s bts len = Some y"
  shows "(snd (fst y) \<noteq> None \<longrightarrow> fst (fst y) = [])
       \<and> (snd (fst y) = None \<longrightarrow> length (fst (fst y)) = len)"
proof (rule readFrame_loop.raw_induct
    [where P = "\<lambda>rd s bts len y. (snd (fst y) \<noteq> None \<longrightarrow> fst (fst y) = [])
       \<and> (snd (fst y) = None \<longrightarrow> length (fst (fst y)) = len)", OF _ assms])
  fix loop :: "'a reader \<Rightarrow> 'a \<Rightarrow> byte list \<Rightarrow> nat \<Rightarrow> ((byte list \<times> ioerr option) \<times> 'a) option"
  fix rd s bts len y
  assume IH: "\<And>rd s bts len y. loop rd s bts len = Some y \<Longrightarrow>
       (snd (fst y) \<noteq> None \<longrightarrow> fst (fst y) = [])
       \<and> (snd (fst y) = None \<longrightarrow> length (fst (fst y)) = len)"
  assume step: "(case Read rd s (len - length bts) of
        ((chunk, None), s') \<Rightarrow>
          if length (bts @ chunk) = len then Some ((bts @ chunk, None), s')
          else loop rd s' (bts @ chunk) len
      | ((chunk, Some err), s') \<Rightarrow> Some (([], Some err), s')) = Some y"
  obtain chunk err s1 where r: "Read rd s (len - length bts) = ((chunk, err), s1)"
    by (metis surj_pair)
  show "(snd (fst y) \<noteq> None \<longrightarrow> fst (fst y) = [])
       \<and> (snd (fst y) = None \<longrightarrow> length (fst (fst y)) = len)"
  proof (cases err)
    case (Some e)
    with step r show ?thesis by auto
  next
    case None
    show ?thesis
    proof (cases "length (bts @ chunk) = len")
      case True
      with step r None show ?thesis by auto
    next
      case False
      with step r None have "loop rd s1 (bts @ chunk) len = Some y" by simp
      from IH [OF this] show ?thesis .
    qed
  qed
qed

lemma readFrame_result:
  assumes "readFrame rd s len = Some ((b, e), s')"
  shows "(e \<noteq> None \<longrightarrow> b = []) \<and> (e = None \<longrightarrow> length b = len)"
  using readFrame_loop_result_aux [of rd s "[]" len "((b, e), s')"] assms
  by (simp add: readFrame_def)

text \<open>Reading from a buffer that holds enough bytes takes exactly the bytes asked for.\<close>

lemma ReadFull_buffer:
  assumes "n \<le> length b"
  shows "ReadFull buffer_Read b n = Some ((take n b, None), drop n b)"
proof (cases "n = 0")
  case True
  then show ?thesis by (simp add: ReadFull_def ReadFull_loop.simps)
next
  case False
  with assms have ne: "b \<noteq> []" by auto
  have r: "Read buffer_Read b n = ((take n b, None), drop n b)"
    using ne by (simp add: Read_def buffer_Read_def)
  have "ReadFull_loop buffer_Read b [] n = Some ((take n b, None), drop n b)"
    using False assms r
    by (subst ReadFull_loop.simps, simp, subst ReadFull_loop.simps, simp)
  then show ?thesis using assms by (simp add: ReadFull_def)
qed

lemma readFrame_buffer:
  assumes "n \<le> length b"
  shows "readFrame buffer_Read b n = Some ((take n b, None), drop n b)"
proof -
  have r: "Read buffer_Read b n = ((take n b, None), drop n b)"
    using assms by (auto simp: Read_def buffer_Read_def)
  show ?thesis
    unfolding readFrame_def using assms r
    by (subst readFrame_loop.simps) simp
qed

text \<open>The big-endian decoding of an encoded length is that length.\<close>

lemma BigEndian_Uint32_PutUint32: "BigEndian_Uint32 (BigEndian_PutUint32 v) = v"
  unfolding BigEndian_Uint32_def BigEndian_PutUint32_def
proof (rule bit_word_eqI)
  fix n assume n: "n < LENGTH(32)"
  consider "n < 8" | "8 \<le> n" "n < 16" | "16 \<le> n" "n < 24" | "24 \<le> n" "n < 32"
    using n by fastforce
  then show "bit (ucast ([ucast (drop_bit 24 v), ucast (drop_bit 16 v), ucast (drop_bit 8 v),
                          ucast v :: byte] ! 3) OR
            push_bit 8 (ucast ([ucast (drop_bit 24 v), ucast (drop_bit 16 v),
                                ucast (drop_bit 8 v), ucast v :: byte] ! 2)) OR
            push_bit 16 (ucast ([ucast (drop_bit 24 v), ucast (drop_bit 16 v),
                                 ucast (drop_bit 8 v), ucast v :: byte] ! 1)) OR
            push_bit 24 (ucast ([ucast (drop_bit 24 v), ucast (drop_bit 16 v),
                                 ucast (drop_bit 8 v), ucast v :: byte] ! 0)) :: 32 word) n
          = bit v n"
    by cases (auto simp: bit_simps)
qed

subsection \<open>Trace validity\<close>

lemma ValidTrace_iff:
  "ValidTrace s \<longleftrightarrow>
     Id_span s \<noteq> 0 \<and> TraceId s \<noteq> 0 \<and> StartTimestamp s \<noteq> 0 \<and> EndTimestamp s \<noteq> 0"
  by (simp add: ValidTrace_def)

text \<open>
  Claim C7. \<open>TraceSpan\<close> returns the span of the message exactly when its \<open>Id\<close>,
  \<open>TraceId\<close>, \<open>StartTimestamp\<close> and \<open>EndTimestamp\<close> are all nonzero, whatever the
  order of the two timestamps; in every other case it returns no span and an
  \<open>InvalidTrace\<close> error that holds the span.
\<close>

theorem TraceSpan_valid_iff:
  "(TraceSpan m = Inr (span m)
      \<longleftrightarrow> Id_span (span m) \<noteq> 0 \<and> TraceId (span m) \<noteq> 0 \<and> StartTimestamp (span m) \<noteq> 0
            \<and> EndTimestamp (span m) \<noteq> 0)
   \<and> (TraceSpan m \<noteq> Inr (span m) \<longrightarrow> TraceSpan m = Inl (InvalidTrace (span m)))
   \<and> (\<forall>sp. TraceSpan m = Inr sp \<longrightarrow> sp = span m)"
  by (auto simp: TraceSpan_def ValidTrace_iff)

theorem TraceSpan_valid_iff_witness:
  "TraceSpan (Message ex_trace) = Inr ex_trace
   \<and> EndTimestamp ex_trace < StartTimestamp ex_trace
   \<and> TraceSpan (Message (ex_trace\<lparr>Id_span := 0\<rparr>))
       = Inl (InvalidTrace (ex_trace\<lparr>Id_span := 0\<rparr>))"
  using TraceSpan_valid_iff [of "Message ex_trace"]
    TraceSpan_valid_iff [of "Message (ex_trace\<lparr>Id_span := 0\<rparr>)"]
  by (simp add: ex_trace_def)

subsection \<open>Normalisation\<close>

lemma normalize_sample_fixpoint: "SampleRate x \<noteq> 0 \<Longrightarrow> normalize_sample x = x"
  by (simp add: normalize_sample_def)

text \<open>
  Claim C9. A span whose \<open>Tags\<close> is not nil, that has a name or no \<open>"name"\<close> tag,
  and whose samples all have a nonzero rate, is left as it is by the normalisation step.
\<close>

theorem normalize_span_fixpoint:
  assumes "Tags s \<noteq> None"
    and "\<not> (Name s = '''' \<and> (\<exists>m v. Tags s = Some m \<and> m ''name'' = Some v))"
    and "\<forall>x \<in> set (Metrics s). SampleRate x \<noteq> 0"
  shows "normalize_span s = s"
proof -
  have 1: "init_Tags s = s" using assms(1) by (simp add: init_Tags_def)
  have 2: "backfill_Name s = s"
  proof (cases "Name s = ''''")
    case False then show ?thesis by (simp add: backfill_Name_def)
  next
    case True
    from assms(1) obtain m where m: "Tags s = Some m" by auto
    with assms(2) True have n: "m ''name'' = None" by (cases "m ''name''") auto
    then have "m(''name'' := None) = m" by (simp add: fun_upd_idem)
    with True m n show ?thesis by (simp add: backfill_Name_def range_name_def)
  qed
  have 3: "map normalize_sample (Metrics s) = Metrics s"
    using assms(3) by (simp add: map_idI normalize_sample_fixpoint)
  show ?thesis by (simp add: normalize_span_def 1 2 3)
qed

theorem normalize_span_fixpoint_witness:
  "Tags ex_normal \<noteq> None
   \<and> \<not> (Name ex_normal = '''' \<and> (\<exists>m v. Tags ex_normal = Some m \<and> m ''name'' = Some v))
   \<and> list_all (\<lambda>x. SampleRate x \<noteq> 0) (Metrics ex_normal)
   \<and> normalize_span ex_normal = ex_normal"
proof -
  have 1: "Tags ex_normal \<noteq> None" by (simp add: ex_normal_def)
  have 2: "\<not> (Name ex_normal = '''' \<and> (\<exists>m v. Tags ex_normal = Some m \<and> m ''name'' = Some v))"
    by (simp add: ex_normal_def)
  have 3: "\<forall>x \<in> set (Metrics ex_normal). SampleRate x \<noteq> 0"
    by (simp add: ex_normal_def ex_sample_def)
  from normalize_span_fixpoint [OF 1 2 3] 1 2 3 show ?thesis by (simp add: list_all_iff)
qed

text \<open>Normalising twice is normalising once.\<close>

lemma normalize_span_idem: "normalize_span (normalize_span s) = normalize_span s"
proof -
  have "normalize_sample (normalize_sample x) = normalize_sample x" for x
    by (simp add: normalize_sample_def)
  then show ?thesis
    by (auto simp: normalize_span_def Let_def init_Tags_def backfill_Name_def range_name_def
        split: option.splits)
qed



subsection \<open>Serialisation failure in \<open>WriteSSF\<close>\<close>

text \<open>
  Claim C8. When serialising the span fails, \<open>WriteSSF\<close> returns the count 0 and the
  serialisation error, which is not a framing error, and the stream is as it was: no
  write has been made.
\<close>

theorem WriteSSF_marshal_failure:
  assumes "marshal ssf = Inl err"
  shows "fst (WriteSSF wr marshal out p ssf) = (0, Some (ProtoError err))
     \<and> \<not> IsFramingError (ProtoError err)
     \<and> fst (snd (WriteSSF wr marshal out p ssf)) = out"
  using assms by (simp add: WriteSSF_def split: prod.splits)

theorem WriteSSF_marshal_failure_witness:
  "name_marshal (ex_trace\<lparr>Metrics := [ex_sample 1]\<rparr>) = Inl ''cannot encode samples''
   \<and> fst (WriteSSF closed_Write name_marshal 0 [] (ex_trace\<lparr>Metrics := [ex_sample 1]\<rparr>))
       = (0, Some (ProtoError ''cannot encode samples''))
   \<and> fst (snd (WriteSSF closed_Write name_marshal 0 [] (ex_trace\<lparr>Metrics := [ex_sample 1]\<rparr>))) = 0"
proof -
  have h: "name_marshal (ex_trace\<lparr>Metrics := [ex_sample 1]\<rparr>) = Inl ''cannot encode samples''"
    by (simp add: name_marshal_def ex_trace_def)
  from WriteSSF_marshal_failure [of name_marshal _ _ closed_Write 0 "[]", OF h] h
  show ?thesis by simp
qed

text \<open>After a failed serialisation the pool is what \<open>Get\<close> left: nothing is put back.\<close>

lemma WriteSSF_marshal_failure_pool:
  assumes "marshal ssf = Inl err"
  shows "snd (snd (WriteSSF wr marshal out p ssf)) = snd (pool_Get p)"
  using assms by (simp add: WriteSSF_def split: prod.splits)

text \<open>After a failed decoding the pool has its buffer back, reset.\<close>

lemma ParseSSF_unmarshal_failure_pool:
  assumes "unmarshal packet = Inl err"
  shows "snd (ParseSSF unmarshal packet p) = [] # snd (pool_Get p)"
  using assms by (simp add: ParseSSF_def Let_def pool_Put_def Reset_def split: prod.splits)

text \<open>
  Claim C1 asks that the scratch buffer taken at the start of \<open>WriteSSF\<close> is reset and
  put back when serialising fails. The code returns before the deferred reset-and-put
  is registered: a pool that held one buffer holds none afterwards, whereas \<open>ParseSSF\<close>
  on a payload that does not decode puts its buffer back.
\<close>

theorem WriteSSF_failure_drops_buffer:
  "snd (snd (WriteSSF buffer_Write name_marshal [] [[]] (ex_trace\<lparr>Metrics := [ex_sample 1]\<rparr>))) = []
   \<and> fst (WriteSSF buffer_Write name_marshal [] [[]] (ex_trace\<lparr>Metrics := [ex_sample 1]\<rparr>))
       = (0, Some (ProtoError ''cannot encode samples''))
   \<and> snd (ParseSSF name_unmarshal [200] [[]]) = [[]]
   \<and> fst (ParseSSF name_unmarshal [200] [[]]) = Inl (ProtoError ''invalid UTF-8'')"
  by (simp add: WriteSSF_def ParseSSF_def pool_Get_def pool_Put_def Reset_def
      name_marshal_def name_unmarshal_def ex_trace_def)

subsection \<open>Header errors in \<open>ReadSSF\<close>\<close>

text \<open>The version read, when the first read call already reports the end of the stream.\<close>

lemma binary_Read_uint8_EOF:
  assumes "Read rd s 1 = (([], Some EOF), s1)"
  shows "binary_Read_uint8 rd s = Some (Inl EOF, s1)"
proof -
  have "ReadFull_loop rd s [] 1 = Some (([], Some EOF), s1)"
    using assms by (subst ReadFull_loop.simps) simp
  then show ?thesis by (simp add: binary_Read_uint8_def ReadFull_def)
qed

text \<open>A successful \<open>binary.Read\<close> took exactly as many bytes as the value has.\<close>

lemma binary_Read_uint8_Inr:
  assumes "binary_Read_uint8 rd s = Some (Inr v, s1)"
  shows "ReadFull rd s 1 = Some (([v], None), s1)"
proof -
  from assms obtain bs where r: "ReadFull rd s 1 = Some ((bs, None), s1)" and v: "v = bs ! 0"
    by (auto simp: binary_Read_uint8_def split: option.splits prod.splits)
  from ReadFull_length [OF r] have "length bs = 1" by simp
  with v have "bs = [v]" by (cases bs) auto
  with r show ?thesis by simp
qed

lemma binary_Read_uint32_Inr:
  assumes "binary_Read_uint32 rd s = Some (Inr v, s1)"
  shows "\<exists>bs. ReadFull rd s 4 = Some ((bs, None), s1) \<and> length bs = 4 \<and> v = BigEndian_Uint32 bs"
proof -
  from assms obtain bs where r: "ReadFull rd s 4 = Some ((bs, None), s1)"
    and v: "v = BigEndian_Uint32 bs"
    by (auto simp: binary_Read_uint32_def split: option.splits prod.splits)
  from ReadFull_length [OF r] have "length bs = 4" by simp
  with r v show ?thesis by blast
qed

text \<open>The header reads from a buffer.\<close>

lemma binary_Read_uint8_buffer:
  "binary_Read_uint8 buffer_Read (v # b) = Some (Inr v, b)"
  using ReadFull_buffer [of 1 "v # b"] by (simp add: binary_Read_uint8_def)

lemma binary_Read_uint32_buffer:
  "binary_Read_uint32 buffer_Read (b0 # b1 # b2 # b3 # b)
     = Some (Inr (BigEndian_Uint32 [b0, b1, b2, b3]), b)"
  using ReadFull_buffer [of 4 "b0 # b1 # b2 # b3 # b"]
  by (simp add: binary_Read_uint32_def)

text \<open>
  Claim C3. When the first read of a frame gives no byte and the end of the stream,
  \<open>ReadSSF\<close> returns the plain end-of-stream error, which is not a framing error. Once
  the version byte has been read, every failure of reading the four length bytes, the
  end of the stream included, is returned as a framing I/O error.
\<close>

theorem ReadSSF_clean_end_or_framing_error:
  "(Read rd s 1 = (([], Some EOF), s1)
      \<longrightarrow> ReadSSF rd unmarshal s p = Some (Inl (PlainIO EOF), s1, p)
          \<and> \<not> IsFramingError (PlainIO EOF))
   \<and> (ReadFull rd s 1 = Some (([], Some EOF), s1)
      \<longrightarrow> ReadSSF rd unmarshal s p = Some (Inl (PlainIO EOF), s1, p))
   \<and> (binary_Read_uint8 rd s = Some (Inr version0, s1)
        \<and> binary_Read_uint32 rd s1 = Some (Inl err, s2)
      \<longrightarrow> ReadSSF rd unmarshal s p = Some (Inl (ErrFramingIO err), s2, p)
          \<and> IsFramingError (ErrFramingIO err))"
proof (intro conjI impI)
  assume "Read rd s 1 = (([], Some EOF), s1)"
  from binary_Read_uint8_EOF [OF this]
  show "ReadSSF rd unmarshal s p = Some (Inl (PlainIO EOF), s1, p)"
    by (simp add: ReadSSF_def)
next
  show "\<not> IsFramingError (PlainIO EOF)" by simp
next
  assume "ReadFull rd s 1 = Some (([], Some EOF), s1)"
  then show "ReadSSF rd unmarshal s p = Some (Inl (PlainIO EOF), s1, p)"
    by (simp add: ReadSSF_def binary_Read_uint8_def)
next
  assume "binary_Read_uint8 rd s = Some (Inr version0, s1)
        \<and> binary_Read_uint32 rd s1 = Some (Inl err, s2)"
  then show "ReadSSF rd unmarshal s p = Some (Inl (ErrFramingIO err), s2, p)"
    by (simp add: ReadSSF_def)
next
  show "IsFramingError (ErrFramingIO err)" by simp
qed

lemma binary_Read_uint32_short_buffer:
  "binary_Read_uint32 buffer_Read [b0] = Some (Inl ErrUnexpectedEOF, [])"
proof -
  have "ReadFull_loop buffer_Read [b0] [] 4 = Some (([b0], Some EOF), [])"
    by (subst ReadFull_loop.simps, simp add: Read_def buffer_Read_def,
        subst ReadFull_loop.simps, simp add: Read_def buffer_Read_def)
  then show ?thesis by (simp add: binary_Read_uint32_def ReadFull_def)
qed

lemma binary_Read_uint32_empty_buffer:
  "binary_Read_uint32 buffer_Read [] = Some (Inl EOF, [])"
proof -
  have "ReadFull_loop buffer_Read [] [] 4 = Some (([], Some EOF), [])"
    by (subst ReadFull_loop.simps, simp add: Read_def buffer_Read_def)
  then show ?thesis by (simp add: binary_Read_uint32_def ReadFull_def)
qed

theorem ReadSSF_clean_end_or_framing_error_witness:
  "Read buffer_Read [] 1 = (([], Some EOF), [])
   \<and> ReadSSF buffer_Read name_unmarshal [] [] = Some (Inl (PlainIO EOF), [], [])
   \<and> binary_Read_uint8 buffer_Read [0, 0] = Some (Inr version0, [0])
   \<and> binary_Read_uint32 buffer_Read [0] = Some (Inl ErrUnexpectedEOF, [])
   \<and> ReadSSF buffer_Read name_unmarshal [0, 0] [] = Some (Inl (ErrFramingIO ErrUnexpectedEOF), [], [])
   \<and> binary_Read_uint8 buffer_Read [0] = Some (Inr version0, [])
   \<and> binary_Read_uint32 buffer_Read [] = Some (Inl EOF, [])
   \<and> ReadSSF buffer_Read name_unmarshal [0] [] = Some (Inl (ErrFramingIO EOF), [], [])"
proof -
  have a: "Read buffer_Read [] 1 = (([], Some EOF), [])"
    by (simp add: Read_def buffer_Read_def)
  have b: "binary_Read_uint8 buffer_Read [0, 0] = Some (Inr version0, [0])"
    by (simp add: binary_Read_uint8_buffer version0_def)
  have c: "binary_Read_uint32 buffer_Read [0] = Some (Inl ErrUnexpectedEOF, [])"
    by (rule binary_Read_uint32_short_buffer)
  have d: "binary_Read_uint8 buffer_Read [0] = Some (Inr version0, [])"
    by (simp add: binary_Read_uint8_buffer version0_def)
  have e: "binary_Read_uint32 buffer_Read [] = Some (Inl EOF, [])"
    by (rule binary_Read_uint32_empty_buffer)
  from ReadSSF_clean_end_or_framing_error [of buffer_Read "[]" "[]" name_unmarshal "[]"] a
  have 1: "ReadSSF buffer_Read name_unmarshal [] [] = Some (Inl (PlainIO EOF), [], [])"
    by blast
  from ReadSSF_clean_end_or_framing_error
    [of buffer_Read "[0, 0]" "[0]" name_unmarshal "[]" ErrUnexpectedEOF "[]"] b c
  have 2: "ReadSSF buffer_Read name_unmarshal [0, 0] []
             = Some (Inl (ErrFramingIO ErrUnexpectedEOF), [], [])"
    by blast
  from ReadSSF_clean_end_or_framing_error
    [of buffer_Read "[0]" "[]" name_unmarshal "[]" EOF "[]"] d e
  have 3: "ReadSSF buffer_Read name_unmarshal [0] [] = Some (Inl (ErrFramingIO EOF), [], [])"
    by blast
  from a b c d e 1 2 3 show ?thesis by blast
qed

text \<open>
  Claim C5. When the first byte of the stream is not zero, \<open>ReadSSF\<close> returns the
  frame version error with that byte. The version read took exactly one byte, and the
  stream is left as that read left it: no read of the length or of the payload follows.
\<close>

theorem ReadSSF_bad_version:
  assumes "binary_Read_uint8 rd s = Some (Inr v, s1)" and "v \<noteq> 0"
  shows "ReadSSF rd unmarshal s p = Some (Inl (ErrFrameVersion v), s1, p)
     \<and> IsFramingError (ErrFrameVersion v)
     \<and> ReadFull rd s 1 = Some (([v], None), s1)"
  using assms binary_Read_uint8_Inr [OF assms(1)]
  by (simp add: ReadSSF_def version0_def)

theorem ReadSSF_bad_version_witness:
  "binary_Read_uint8 buffer_Read [1, 0, 0, 0, 2, 104, 105] = Some (Inr 1, [0, 0, 0, 2, 104, 105])
   \<and> (1 :: byte) \<noteq> 0
   \<and> ReadSSF buffer_Read name_unmarshal [1, 0, 0, 0, 2, 104, 105] []
       = Some (Inl (ErrFrameVersion 1), [0, 0, 0, 2, 104, 105], [])"
proof -
  have h: "binary_Read_uint8 buffer_Read [1, 0, 0, 0, 2, 104, 105]
             = Some (Inr 1, [0, 0, 0, 2, 104, 105])"
    by (rule binary_Read_uint8_buffer)
  have n: "(1 :: byte) \<noteq> 0" by simp
  from ReadSSF_bad_version [OF h n, of name_unmarshal "[]"] h n show ?thesis by blast
qed

text \<open>
  Claim C4. With a header that declares the length \<open>L\<close>: when \<open>L\<close> exceeds
  \<open>16 * 1024 * 1024\<close>, \<open>ReadSSF\<close> returns the frame length error with \<open>L\<close>, and the
  stream is left as the header reads left it, so that no payload byte has been taken;
  otherwise the check passes and the result is that of reading \<open>L\<close> payload bytes with
  \<open>readFrame\<close> and, when that succeeds, of decoding them.
\<close>

theorem ReadSSF_length_check:
  assumes "binary_Read_uint8 rd s = Some (Inr version0, s1)"
    and "binary_Read_uint32 rd s1 = Some (Inr L, s2)"
  shows "(L > 16 * 1024 * 1024
            \<longrightarrow> ReadSSF rd unmarshal s p = Some (Inl (ErrFrameLength L), s2, p)
                \<and> IsFramingError (ErrFrameLength L))
     \<and> (L \<le> 16 * 1024 * 1024
            \<longrightarrow> ReadSSF rd unmarshal s p =
                  (case readFrame rd s2 (unat L) of
                     None \<Rightarrow> None
                   | Some ((bts, Some err), s3) \<Rightarrow> Some (Inl (ErrFramingIO err), s3, p)
                   | Some ((bts, None), s3) \<Rightarrow>
                       Some (fst (ParseSSF unmarshal bts p), s3, snd (ParseSSF unmarshal bts p))))"
  using assms
  by (auto simp: ReadSSF_def MaxSSFPacketLength_def
      split: option.splits prod.splits)

theorem ReadSSF_length_check_witness:
  "binary_Read_uint8 buffer_Read [0, 1, 0, 0, 1, 104, 105] = Some (Inr version0, [1, 0, 0, 1, 104, 105])
   \<and> binary_Read_uint32 buffer_Read [1, 0, 0, 1, 104, 105] = Some (Inr 16777217, [104, 105])
   \<and> (16777217 :: 32 word) > 16 * 1024 * 1024
   \<and> ReadSSF buffer_Read name_unmarshal [0, 1, 0, 0, 1, 104, 105] []
       = Some (Inl (ErrFrameLength 16777217), [104, 105], [])
   \<and> binary_Read_uint8 buffer_Read [0, 0, 0, 0, 2, 104, 105] = Some (Inr version0, [0, 0, 0, 2, 104, 105])
   \<and> binary_Read_uint32 buffer_Read [0, 0, 0, 2, 104, 105] = Some (Inr 2, [104, 105])
   \<and> (2 :: 32 word) \<le> 16 * 1024 * 1024
   \<and> (\<exists>m. ReadSSF buffer_Read name_unmarshal [0, 0, 0, 0, 2, 104, 105] [] = Some (Inr m, [], [[]]))"
proof -
  have a: "binary_Read_uint8 buffer_Read [0, 1, 0, 0, 1, 104, 105]
             = Some (Inr version0, [1, 0, 0, 1, 104, 105])"
    by (simp add: binary_Read_uint8_buffer version0_def)
  have b: "binary_Read_uint32 buffer_Read [1, 0, 0, 1, 104, 105] = Some (Inr 16777217, [104, 105])"
    by (simp add: binary_Read_uint32_buffer BigEndian_Uint32_def)
  have c: "(16777217 :: 32 word) > 16 * 1024 * 1024" by simp
  have d: "binary_Read_uint8 buffer_Read [0, 0, 0, 0, 2, 104, 105]
             = Some (Inr version0, [0, 0, 0, 2, 104, 105])"
    by (simp add: binary_Read_uint8_buffer version0_def)
  have e: "binary_Read_uint32 buffer_Read [0, 0, 0, 2, 104, 105] = Some (Inr 2, [104, 105])"
    by (simp add: binary_Read_uint32_buffer BigEndian_Uint32_def)
  have f: "(2 :: 32 word) \<le> 16 * 1024 * 1024" by simp
  have g: "readFrame buffer_Read [104, 105] (unat (2 :: 32 word)) = Some (([104, 105], None), [])"
    using readFrame_buffer [of 2 "[104, 105]"] by simp
  from ReadSSF_length_check [OF a b, of name_unmarshal "[]"] c
  have 1: "ReadSSF buffer_Read name_unmarshal [0, 1, 0, 0, 1, 104, 105] []
             = Some (Inl (ErrFrameLength 16777217), [104, 105], [])"
    by blast
  from ReadSSF_length_check [OF d e, of name_unmarshal "[]"] f
  have "ReadSSF buffer_Read name_unmarshal [0, 0, 0, 0, 2, 104, 105] [] =
                  (case readFrame buffer_Read [104, 105] (unat (2 :: 32 word)) of
                     None \<Rightarrow> None
                   | Some ((bts, Some err), s3) \<Rightarrow> Some (Inl (ErrFramingIO err), s3, [])
                   | Some ((bts, None), s3) \<Rightarrow>
                       Some (fst (ParseSSF name_unmarshal bts []), s3,
                             snd (ParseSSF name_unmarshal bts [])))"
    by blast
  with g have 2: "\<exists>m. ReadSSF buffer_Read name_unmarshal [0, 0, 0, 0, 2, 104, 105] []
                    = Some (Inr m, [], [[]])"
    by (simp add: ParseSSF_def name_unmarshal_def pool_Get_def pool_Put_def Reset_def)
  from a b c d e f 1 2 show ?thesis by blast
qed

subsection \<open>Errors while reading the payload\<close>

text \<open>
  Claim C10. In \<open>readFrame\<close> an error of a read wins over the bytes of that read: at
  any round of the loop, a read that reports an error makes \<open>readFrame\<close> return the
  error and the empty slice, whatever was accumulated and whatever came with the error,
  also when those bytes would have filled the buffer. \<open>ReadSSF\<close> returns it as a
  framing I/O error.
\<close>

theorem readFrame_error_precedence:
  "(Read rd s (len - length bts) = ((chunk, Some err), s')
      \<longrightarrow> readFrame_loop rd s bts len = Some (([], Some err), s'))
   \<and> (readFrame rd t n = Some ((b, Some e), t') \<longrightarrow> b = [])
   \<and> (binary_Read_uint8 rd s0 = Some (Inr version0, s1)
        \<and> binary_Read_uint32 rd s1 = Some (Inr L, s2)
        \<and> L \<le> MaxSSFPacketLength
        \<and> readFrame rd s2 (unat L) = Some ((b', Some e'), s3)
      \<longrightarrow> ReadSSF rd unmarshal s0 p = Some (Inl (ErrFramingIO e'), s3, p)
          \<and> IsFramingError (ErrFramingIO e'))"
proof (intro conjI impI)
  assume "Read rd s (len - length bts) = ((chunk, Some err), s')"
  then show "readFrame_loop rd s bts len = Some (([], Some err), s')"
    by (subst readFrame_loop.simps) simp
next
  assume "readFrame rd t n = Some ((b, Some e), t')"
  from readFrame_result [OF this] show "b = []" by simp
next
  assume "binary_Read_uint8 rd s0 = Some (Inr version0, s1)
        \<and> binary_Read_uint32 rd s1 = Some (Inr L, s2)
        \<and> L \<le> MaxSSFPacketLength
        \<and> readFrame rd s2 (unat L) = Some ((b', Some e'), s3)"
  then show "ReadSSF rd unmarshal s0 p = Some (Inl (ErrFramingIO e'), s3, p)"
    by (simp add: ReadSSF_def not_less)
next
  show "IsFramingError (ErrFramingIO e')" by simp
qed

theorem readFrame_error_precedence_witness:
  "Read script_Read [([104, 105], Some EOF)] (2 - length ([] :: byte list))
     = (([104, 105], Some EOF), [])
   \<and> readFrame script_Read [([104, 105], Some EOF)] 2 = Some (([], Some EOF), [])
   \<and> binary_Read_uint8 script_Read [([0, 0, 0, 0, 2], None), ([104, 105], Some EOF)]
       = Some (Inr version0, [([0, 0, 0, 2], None), ([104, 105], Some EOF)])
   \<and> binary_Read_uint32 script_Read [([0, 0, 0, 2], None), ([104, 105], Some EOF)]
       = Some (Inr 2, [([104, 105], Some EOF)])
   \<and> (2 :: 32 word) \<le> MaxSSFPacketLength
   \<and> ReadSSF script_Read name_unmarshal [([0, 0, 0, 0, 2], None), ([104, 105], Some EOF)] []
       = Some (Inl (ErrFramingIO EOF), [], [])"
proof -
  have a: "Read script_Read [([104, 105], Some EOF)] (2 - length ([] :: byte list))
             = (([104, 105], Some EOF), [])"
    by (simp add: Read_def script_Read_def)
  from readFrame_error_precedence
    [of script_Read "[([104, 105], Some EOF)]" 2 "[]" "[104, 105]" EOF "[]"] a
  have b: "readFrame script_Read [([104, 105], Some EOF)] 2 = Some (([], Some EOF), [])"
    unfolding readFrame_def by blast
  have c: "binary_Read_uint8 script_Read [([0, 0, 0, 0, 2], None), ([104, 105], Some EOF)]
       = Some (Inr version0, [([0, 0, 0, 2], None), ([104, 105], Some EOF)])"
    by (simp add: binary_Read_uint8_def ReadFull_def ReadFull_loop.simps Read_def
        script_Read_def version0_def)
  have d: "binary_Read_uint32 script_Read [([0, 0, 0, 2], None), ([104, 105], Some EOF)]
       = Some (Inr 2, [([104, 105], Some EOF)])"
    by (simp add: binary_Read_uint32_def ReadFull_def ReadFull_loop.simps Read_def
        script_Read_def BigEndian_Uint32_def)
  have e: "(2 :: 32 word) \<le> MaxSSFPacketLength" by (simp add: MaxSSFPacketLength_def)
  have f: "readFrame script_Read [([104, 105], Some EOF)] (unat (2 :: 32 word))
             = Some (([], Some EOF), [])"
    using b by simp
  from readFrame_error_precedence
    [of script_Read _ _ _ _ _ _ _ _ _ _ _
        "[([0, 0, 0, 0, 2], None), ([104, 105], Some EOF)]"
        "[([0, 0, 0, 2], None), ([104, 105], Some EOF)]" 2 "[([104, 105], Some EOF)]"
        "[]" EOF "[]" name_unmarshal "[]"] c d e f
  have g: "ReadSSF script_Read name_unmarshal
             [([0, 0, 0, 0, 2], None), ([104, 105], Some EOF)] []
       = Some (Inl (ErrFramingIO EOF), [], [])"
    by blast
  from a b c d e g show ?thesis by blast
qed

subsection \<open>Writing a frame and reading it back\<close>



text \<open>Every buffer in the pool is reset: an invariant of \<open>ParseSSF\<close> and \<open>WriteSSF\<close>.\<close>

lemma pool_Get_reset:
  assumes "\<forall>b \<in> set p. b = []"
  shows "fst (pool_Get p) = [] \<and> (\<forall>b \<in> set (snd (pool_Get p)). b = [])"
  using assms by (cases p) (auto simp: pool_Get_def)


lemma WriteSSF_pool_reset:
  assumes "\<forall>b \<in> set p. b = []"
  shows "\<forall>b \<in> set (snd (snd (WriteSSF wr marshal out p ssf))). b = []"
  using pool_Get_reset [OF assms]
  by (auto simp: WriteSSF_def Let_def pool_Put_def Reset_def split: prod.splits sum.splits option.splits)



subsection \<open>Reading from a stream that delivers\<close>

lemma Read_delivers:
  assumes "delivers rd pending" and "pending s \<noteq> [] \<or> k = 0"
  obtains chunk s' where "Read rd s k = ((chunk, None), s')" and "length chunk \<le> k"
    and "chunk = take (length chunk) (pending s)"
    and "pending s' = drop (length chunk) (pending s)" and "0 < k \<Longrightarrow> chunk \<noteq> []"
proof -
  obtain chunk err s' where r: "rd s k = ((chunk, err), s')" by (metis surj_pair)
  from assms r have p: "err = None" "length chunk \<le> k" "chunk = take (length chunk) (pending s)"
    "pending s' = drop (length chunk) (pending s)" "0 < k \<longrightarrow> chunk \<noteq> []"
    unfolding delivers_def by (force split: prod.splits)+
  from r p(1,2) have "Read rd s k = ((chunk, None), s')" by (simp add: Read_def)
  with p that show thesis by blast
qed

lemma take_step:
  assumes "chunk = take (length chunk) P" and "length chunk \<le> k"
  shows "chunk @ take (k - length chunk) (drop (length chunk) P) = take k P"
proof -
  have "take k P = take (length chunk + (k - length chunk)) P" using assms(2) by simp
  also have "\<dots> = take (length chunk) P @ take (k - length chunk) (drop (length chunk) P)"
    by (rule take_add)
  finally show ?thesis using assms(1) by simp
qed

lemma ReadFull_loop_delivers:
  assumes d: "delivers rd pending"
  shows "length buf \<le> mn \<Longrightarrow> mn - length buf \<le> length (pending s) \<Longrightarrow>
     \<exists>s'. ReadFull_loop rd s buf mn
             = Some ((buf @ take (mn - length buf) (pending s), None), s')
          \<and> pending s' = drop (mn - length buf) (pending s)"
proof (induction "mn - length buf" arbitrary: s buf rule: less_induct)
  case less
  show ?case
  proof (cases "length buf < mn")
    case False
    then show ?thesis by (subst ReadFull_loop.simps) simp
  next
    case True
    let ?k = "mn - length buf"
    from True less.prems(2) have ne: "pending s \<noteq> [] \<or> ?k = 0" by auto
    from Read_delivers [OF d ne] True
    obtain chunk s1 where r: "Read rd s ?k = ((chunk, None), s1)" and l: "length chunk \<le> ?k"
      and c: "chunk = take (length chunk) (pending s)"
      and p: "pending s1 = drop (length chunk) (pending s)" and n: "chunk \<noteq> []"
      by (metis zero_less_diff)
    from n have pos: "0 < length chunk" by simp
    have m: "mn - length (buf @ chunk) < mn - length buf" using True l pos unfolding length_append by linarith
    have b: "length (buf @ chunk) \<le> mn" using True l by simp
    have q: "mn - length (buf @ chunk) \<le> length (pending s1)"
      using less.prems(2) p l by simp
    from less.hyps [OF m b q]
    obtain s' where
      ih: "ReadFull_loop rd s1 (buf @ chunk) mn
             = Some (((buf @ chunk) @ take (mn - length (buf @ chunk)) (pending s1), None), s')"
      and ps: "pending s' = drop (mn - length (buf @ chunk)) (pending s1)"
      by blast
    have e: "mn - length (buf @ chunk) = ?k - length chunk" by simp
    have t: "(buf @ chunk) @ take (mn - length (buf @ chunk)) (pending s1)
               = buf @ take ?k (pending s)"
      using take_step [OF c l] by (simp add: e p)
    have a: "mn - length (buf @ chunk) + length chunk = ?k"
      using l unfolding length_append by linarith
    have dr: "drop (mn - length (buf @ chunk)) (pending s1) = drop ?k (pending s)"
      by (simp only: p drop_drop a)
    have "ReadFull_loop rd s buf mn = ReadFull_loop rd s1 (buf @ chunk) mn"
      using True r by (subst ReadFull_loop.simps) simp
    with ih ps t dr show ?thesis by simp
  qed
qed

lemma ReadFull_delivers:
  assumes "delivers rd pending" and "n \<le> length (pending s)"
  shows "\<exists>s'. ReadFull rd s n = Some ((take n (pending s), None), s')
             \<and> pending s' = drop n (pending s)"
proof -
  from ReadFull_loop_delivers [OF assms(1), of "[]" n s] assms(2)
  obtain s' where "ReadFull_loop rd s [] n = Some ((take n (pending s), None), s')"
    and "pending s' = drop n (pending s)" by auto
  then show ?thesis using assms(2) by (auto simp: ReadFull_def)
qed

lemma readFrame_loop_delivers:
  assumes d: "delivers rd pending"
  shows "length bts \<le> len \<Longrightarrow> len - length bts \<le> length (pending s) \<Longrightarrow>
     \<exists>s'. readFrame_loop rd s bts len
             = Some ((bts @ take (len - length bts) (pending s), None), s')
          \<and> pending s' = drop (len - length bts) (pending s)"
proof (induction "len - length bts" arbitrary: s bts rule: less_induct)
  case less
  let ?k = "len - length bts"
  from less.prems(2) have ne: "pending s \<noteq> [] \<or> ?k = 0" by auto
  from Read_delivers [OF d ne]
  obtain chunk s1 where r: "Read rd s ?k = ((chunk, None), s1)" and l: "length chunk \<le> ?k"
    and c: "chunk = take (length chunk) (pending s)"
    and p: "pending s1 = drop (length chunk) (pending s)" and n: "0 < ?k \<Longrightarrow> chunk \<noteq> []"
    by blast
  show ?case
  proof (cases "length (bts @ chunk) = len")
    case True
    then have k: "length chunk = ?k" using less.prems(1) by simp
    have "readFrame_loop rd s bts len = Some ((bts @ chunk, None), s1)"
      using True r by (subst readFrame_loop.simps) simp
    moreover have "chunk = take ?k (pending s)" using c k by simp
    moreover have "pending s1 = drop ?k (pending s)" using p k by simp
    ultimately show ?thesis by simp
  next
    case False
    with l less.prems(1) have lt: "length bts < len" by auto
    with n have pos: "0 < length chunk" by simp
    have m: "len - length (bts @ chunk) < len - length bts" using lt l pos unfolding length_append by linarith
    have b: "length (bts @ chunk) \<le> len" using lt l by simp
    have q: "len - length (bts @ chunk) \<le> length (pending s1)"
      using less.prems(2) p l by simp
    from less.hyps [OF m b q]
    obtain s' where
      ih: "readFrame_loop rd s1 (bts @ chunk) len
             = Some (((bts @ chunk) @ take (len - length (bts @ chunk)) (pending s1), None), s')"
      and ps: "pending s' = drop (len - length (bts @ chunk)) (pending s1)"
      by blast
    have e: "len - length (bts @ chunk) = ?k - length chunk" by simp
    have t: "(bts @ chunk) @ take (len - length (bts @ chunk)) (pending s1)
               = bts @ take ?k (pending s)"
      using take_step [OF c l] by (simp add: e p)
    have a: "len - length (bts @ chunk) + length chunk = ?k"
      using l unfolding length_append by linarith
    have dr: "drop (len - length (bts @ chunk)) (pending s1) = drop ?k (pending s)"
      by (simp only: p drop_drop a)
    have "readFrame_loop rd s bts len = readFrame_loop rd s1 (bts @ chunk) len"
      using False r by (subst readFrame_loop.simps) simp
    with ih ps t dr show ?thesis by simp
  qed
qed

lemma readFrame_delivers:
  assumes "delivers rd pending" and "n \<le> length (pending s)"
  shows "\<exists>s'. readFrame rd s n = Some ((take n (pending s), None), s')
             \<and> pending s' = drop n (pending s)"
  using readFrame_loop_delivers [OF assms(1), of "[]" n s] assms(2)
  by (simp add: readFrame_def)

text \<open>
  \<open>ReadSSF\<close> on a stream whose pending bytes start with a version-0 header that
  declares \<open>L\<close> and \<open>L\<close> bytes of payload.
\<close>

lemma ReadSSF_delivers_frame:
  assumes d: "delivers rd pending"
    and f: "pending s = version0 # BigEndian_PutUint32 L @ payload @ rest"
    and n: "length payload = unat L"
  shows "\<exists>s'. ReadSSF rd unmarshal s p
                = (if L > MaxSSFPacketLength then Some (Inl (ErrFrameLength L), s', p)
                   else Some (fst (ParseSSF unmarshal payload p), s',
                              snd (ParseSSF unmarshal payload p)))
             \<and> pending s' = (if L > MaxSSFPacketLength then payload @ rest else rest)"
proof -
  obtain b0 b1 b2 b3 where put: "BigEndian_PutUint32 L = [b0, b1, b2, b3]"
    by (simp add: BigEndian_PutUint32_def)
  have dec: "BigEndian_Uint32 [b0, b1, b2, b3] = L"
    using BigEndian_Uint32_PutUint32 [of L] put by simp
  from ReadFull_delivers [OF d, of 1 s] f
  obtain s1 where r1: "ReadFull rd s 1 = Some (([version0], None), s1)"
    and p1: "pending s1 = b0 # b1 # b2 # b3 # payload @ rest"
    by (auto simp: put)
  from ReadFull_delivers [OF d, of 4 s1] p1
  obtain s2 where r2: "ReadFull rd s1 4 = Some (([b0, b1, b2, b3], None), s2)"
    and p2: "pending s2 = payload @ rest"
    by auto
  from readFrame_delivers [OF d, of "unat L" s2] p2 n
  obtain s3 where r3: "readFrame rd s2 (unat L) = Some ((payload, None), s3)"
    and p3: "pending s3 = rest"
    by auto
  have v: "binary_Read_uint8 rd s = Some (Inr version0, s1)"
    using r1 by (simp add: binary_Read_uint8_def)
  have l: "binary_Read_uint32 rd s1 = Some (Inr L, s2)"
    using r2 dec by (simp add: binary_Read_uint32_def)
  show ?thesis
  proof (cases "L > MaxSSFPacketLength")
    case True
    with v l p2 show ?thesis by (auto simp: ReadSSF_def)
  next
    case False
    with v l r3 p3 show ?thesis by (auto simp: ReadSSF_def split: prod.splits)
  qed
qed




lemma onebyte_Read_delivers: "delivers onebyte_Read (\<lambda>b. b)"
  by (auto simp: delivers_def onebyte_Read_def take_Suc drop_Suc)


lemma name_unmarshal_hi:
  "name_unmarshal [104, 105]
     = Inr \<lparr>Id_span = 0, TraceId = 0, StartTimestamp = 0, EndTimestamp = 0,
            Name = ''hi'', Tags = None, Metrics = []\<rparr>"
proof -
  have "map (\<lambda>b. char_of (unat b)) [104, 105 :: byte] = ''hi''" by code_simp
  then show ?thesis by (simp add: name_unmarshal_def)
qed


text \<open>A frame that arrives one byte at a time is read like one that arrives at once.\<close>

lemma ReadSSF_onebyte_example:
  "ReadSSF onebyte_Read name_unmarshal [0, 0, 0, 0, 2, 104, 105, 7] []
     = Some (Inr (Message (ex_named\<lparr>Tags := Some Map.empty\<rparr>)), [7], [[]])"
proof -
  have f: "(\<lambda>b. b) [0, 0, 0, 0, 2, 104, 105, 7 :: byte]
             = version0 # BigEndian_PutUint32 2 @ [104, 105] @ [7]"
    by (simp add: version0_def BigEndian_PutUint32_def)
  have n: "length [104, 105 :: byte] = unat (2 :: 32 word)" by simp
  have m: "\<not> (2 :: 32 word) > MaxSSFPacketLength" by (simp add: MaxSSFPacketLength_def)
  have p: "ParseSSF name_unmarshal [104, 105] []
             = (Inr (Message (ex_named\<lparr>Tags := Some Map.empty\<rparr>)), [[]])"
    by (simp add: ParseSSF_def pool_Get_def pool_Put_def Reset_def name_unmarshal_hi
        normalize_span_def init_Tags_def backfill_Name_def ex_named_def)
  from ReadSSF_delivers_frame [OF onebyte_Read_delivers f n, of name_unmarshal "[]"] m p
  show ?thesis by auto
qed

text \<open>
  \<open>readFrame\<close> issues a read also for an empty payload. On a reader that answers a
  read for no bytes at the end of the stream with the end-of-stream error, a frame with
  an empty payload that ends the stream is a framing error; this is why \<open>delivers\<close>
  asks that a read for no bytes succeeds.
\<close>

lemma ReadSSF_empty_payload_at_end:
  "ReadSSF script_Read name_unmarshal [([0, 0, 0, 0, 0], None)] []
     = Some (Inl (ErrFramingIO EOF), [], [])"
proof -
  have v: "binary_Read_uint8 script_Read [([0, 0, 0, 0, 0], None)]
             = Some (Inr version0, [([0, 0, 0, 0], None)])"
    by (simp add: binary_Read_uint8_def ReadFull_def ReadFull_loop.simps Read_def
        script_Read_def version0_def)
  have l: "binary_Read_uint32 script_Read [([0, 0, 0, 0], None)] = Some (Inr 0, [])"
    by (simp add: binary_Read_uint32_def ReadFull_def ReadFull_loop.simps Read_def
        script_Read_def BigEndian_Uint32_def)
  have f: "readFrame script_Read [] 0 = Some (([], Some EOF), [])"
    unfolding readFrame_def
    by (subst readFrame_loop.simps) (simp add: Read_def script_Read_def)
  show ?thesis
    by (simp add: ReadSSF_def v l f MaxSSFPacketLength_def)
qed




end
